theory Spec2Isabelle
  imports Complex_Main "HOL-Library.AList" "HOL-Library.Multiset"
begin

section \<open>The task-lease scheduler of Orchestrator.py\<close>

text \<open>
  The scheduler keeps two process-wide structures, the list \<open>tasks\<close> (the pool) and the
  dictionary \<open>workers\<close>, and mutates both only inside \<open>with lock:\<close>. Each handler and each
  pass of a background loop is therefore one atomic function from state to state.

  Conventions of the embedding:
  \<^item> a clock reading (\<open>time.time()\<close>) is a \<open>real\<close> handed to the function, one argument per
    reading and in the order the source makes them;
  \<^item> the difference of two clock readings is a floating-point subtraction, which rounds;
    it is the parameter \<open>fsub\<close> of the timeout checker, of which nothing is assumed;
  \<^item> the identifier drawn by \<open>uuid.uuid4()\<close> is an argument of \<open>register_worker\<close>;
  \<^item> the dictionary \<open>workers\<close> is an association list in insertion order, which is the
    order \<open>workers.items()\<close> iterates in;
  \<^item> a string is a list of code points below 256;
  \<^item> \<open>log_message\<close> and \<open>print\<close> only write to the console log and are left out.
\<close>

subsection \<open>Configuration\<close>

record config =
  BATCH_SIZE :: int
  ACK_TIMEOUT :: int
  PROCESSING_TIMEOUT :: int
  INPUT_BUCKET :: string
  INPUT_PREFIX :: string
  OUTPUT_BUCKET :: string
  OUTPUT_PREFIX :: string

subsection \<open>Data model\<close>

type_synonym task = string
type_synonym worker_id = string

text \<open>
  The three dictionaries that \<open>get_assignment\<close> can store under \<open>'assignment'\<close>:
  the shutdown instruction, a batch (\<open>file_names\<close>, \<open>input_bucket\<close>, \<open>input_prefix\<close>,
  \<open>output_bucket\<close>, \<open>output_prefix\<close>) and the dictionary of the \<open>else\<close> branch with the
  message \<open>'No tasks remaining'\<close> (\<open>input_bucket\<close>, \<open>output_bucket\<close>, \<open>output_prefix\<close>).
  None of them is empty, so each is truthy.
\<close>

datatype assignment =
    ShutdownAssignment
  | Batch "task list" string string string string
  | NoTasksRemaining string string string

text \<open>\<open>assignment.get('file_names', [])\<close>\<close>

fun file_names :: "assignment \<Rightarrow> task list" where
  "file_names ShutdownAssignment = []"
| "file_names (Batch batch ib ip ob op) = batch"
| "file_names (NoTasksRemaining ib ob op) = []"

text \<open>The \<open>'details'\<close> of a history event.\<close>

datatype detail =
    Payload string
  | AssignmentDetails assignment
  | EmptyDetails
  | Elapsed real

record history_event =
  ev_status :: string
  ev_details :: detail
  ev_timestamp :: real

record worker =
  status :: string
  details :: string
  assignment :: "assignment option"
  assignment_timestamp :: "real option"
  processing_start :: "real option"
  history :: "history_event list"

record state =
  tasks :: "task list"
  workers :: "(worker_id \<times> worker) list"

datatype error = NotRegistered | NoAssignmentPending

text \<open>Truthiness of \<open>worker.get('assignment_timestamp')\<close>: \<open>None\<close> and \<open>0.0\<close> are falsy.\<close>

fun truthy :: "real option \<Rightarrow> bool" where
  "truthy None = False"
| "truthy (Some t) = (t \<noteq> 0)"

text \<open>The slices \<open>xs[:n]\<close> and \<open>del xs[:n]\<close>; a negative \<open>n\<close> counts from the end.\<close>

definition slice_upto :: "int \<Rightarrow> 'a list \<Rightarrow> 'a list" where
  "slice_upto n xs =
     (if 0 \<le> n then take (nat n) xs else take (length xs - nat (- n)) xs)"

definition del_upto :: "int \<Rightarrow> 'a list \<Rightarrow> 'a list" where
  "del_upto n xs =
     (if 0 \<le> n then drop (nat n) xs else drop (length xs - nat (- n)) xs)"

text \<open>\<open>str.lower()\<close> on code points below 256.\<close>

definition lower_char :: "char \<Rightarrow> char" where
  "lower_char c =
     (let n = (of_char c :: nat)
      in if (65 \<le> n \<and> n \<le> 90) \<or> (192 \<le> n \<and> n \<le> 222 \<and> n \<noteq> 215)
         then char_of (n + 32) else c)"

definition lower :: "string \<Rightarrow> string" where
  "lower s = map lower_char s"

subsection \<open>The protocol handlers\<close>

definition all_tasks_completed :: "state \<Rightarrow> bool" where
  "all_tasks_completed s = (length (tasks s) = 0)"

definition register_worker :: "worker_id \<Rightarrow> string \<Rightarrow> real \<Rightarrow> state \<Rightarrow> worker_id \<times> state" where
  "register_worker worker_id worker_data now s =
     (worker_id,
      s\<lparr>workers := AList.update worker_id
          \<lparr>status = ''idle'', details = worker_data, assignment = None,
           assignment_timestamp = None, processing_start = None,
           history = [\<lparr>ev_status = ''registered'', ev_details = Payload worker_data,
                       ev_timestamp = now\<rparr>]\<rparr>
          (workers s)\<rparr>)"

definition get_assignment ::
  "config \<Rightarrow> real \<Rightarrow> real \<Rightarrow> worker_id \<Rightarrow> state \<Rightarrow> (error + assignment) \<times> state" where
  "get_assignment cfg t1 t2 worker_id s =
     (case map_of (workers s) worker_id of
        None \<Rightarrow> (Inl NotRegistered, s)
      | Some w \<Rightarrow>
          (case assignment w of
             Some a \<Rightarrow> (Inr a, s)
           | None \<Rightarrow>
               if all_tasks_completed s then
                 (Inr ShutdownAssignment,
                  s\<lparr>workers := AList.update worker_id
                      (w\<lparr>assignment := Some ShutdownAssignment,
                         status := ''shutdown'',
                         history := history w @
                           [\<lparr>ev_status = ''shutdown'',
                             ev_details = AssignmentDetails ShutdownAssignment,
                             ev_timestamp = t1\<rparr>]\<rparr>)
                      (workers s)\<rparr>)
               else
                 (let (a, pool) =
                        (if tasks s \<noteq> [] then
                           (Batch (slice_upto (BATCH_SIZE cfg) (tasks s))
                              (INPUT_BUCKET cfg) (INPUT_PREFIX cfg)
                              (OUTPUT_BUCKET cfg) (OUTPUT_PREFIX cfg),
                            del_upto (BATCH_SIZE cfg) (tasks s))
                         else
                           (NoTasksRemaining (INPUT_BUCKET cfg) (OUTPUT_BUCKET cfg)
                              (OUTPUT_PREFIX cfg),
                            tasks s))
                  in (Inr a,
                      s\<lparr>tasks := pool,
                        workers := AList.update worker_id
                          (w\<lparr>assignment := Some a,
                             assignment_timestamp := Some t1,
                             status := ''waiting_ack'',
                             history := history w @
                               [\<lparr>ev_status = ''assignment_assigned'',
                                 ev_details = AssignmentDetails a,
                                 ev_timestamp = t2\<rparr>]\<rparr>)
                          (workers s)\<rparr>))))"

definition acknowledge_assignment ::
  "real \<Rightarrow> real \<Rightarrow> worker_id \<Rightarrow> state \<Rightarrow> (error + unit) \<times> state" where
  "acknowledge_assignment t1 t2 worker_id s =
     (case map_of (workers s) worker_id of
        None \<Rightarrow> (Inl NotRegistered, s)
      | Some w \<Rightarrow>
          (case assignment w of
             None \<Rightarrow> (Inl NoAssignmentPending, s)
           | Some a \<Rightarrow>
               (Inr (),
                s\<lparr>workers := AList.update worker_id
                    (w\<lparr>status := ''processing'',
                       processing_start := Some t1,
                       history := history w @
                         [\<lparr>ev_status = ''processing'', ev_details = EmptyDetails,
                           ev_timestamp = t2\<rparr>],
                       assignment_timestamp := None\<rparr>)
                    (workers s)\<rparr>)))"

text \<open>
  \<open>update_status\<close> receives the \<open>'status'\<close> string of the request body (\<open>''\<close> when the key
  is missing) and its \<open>'details'\<close>, and lower-cases the string before anything else.
\<close>

definition update_status ::
  "real \<Rightarrow> worker_id \<Rightarrow> string \<Rightarrow> detail \<Rightarrow> state \<Rightarrow> (error + unit) \<times> state" where
  "update_status now worker_id req_status req_details s =
     (let status_update = lower req_status;
          ev = (\<lambda>st. \<lparr>ev_status = st, ev_details = req_details, ev_timestamp = now\<rparr>)
      in case map_of (workers s) worker_id of
        None \<Rightarrow> (Inl NotRegistered, s)
      | Some w \<Rightarrow>
          (case assignment w of
             Some current_assignment \<Rightarrow>
               if status_update = ''completed'' then
                 (Inr (),
                  s\<lparr>workers := AList.update worker_id
                      (w\<lparr>history := history w @ [ev ''completed''],
                         assignment := None,
                         assignment_timestamp := None,
                         processing_start := None,
                         status := ''idle''\<rparr>)
                      (workers s)\<rparr>)
               else if status_update = ''failed'' then
                 (Inr (),
                  s\<lparr>tasks := tasks s @ file_names current_assignment,
                    workers := AList.update worker_id
                      (w\<lparr>history := history w @ [ev ''failed''],
                         assignment := None,
                         assignment_timestamp := None,
                         processing_start := None,
                         status := ''failed''\<rparr>)
                      (workers s)\<rparr>)
               else if status_update = ''processing'' then
                 (Inr (),
                  s\<lparr>workers := AList.update worker_id
                      (w\<lparr>history := history w @ [ev ''processing''],
                         status := ''processing''\<rparr>)
                      (workers s)\<rparr>)
               else if status_update = ''shutting-down'' then
                 (Inr (),
                  s\<lparr>workers := AList.update worker_id
                      (w\<lparr>history := history w @ [ev ''shutting-down''],
                         assignment := None,
                         assignment_timestamp := None,
                         processing_start := None,
                         status := ''shutting-down''\<rparr>)
                      (workers s)\<rparr>)
               else
                 (Inr (),
                  s\<lparr>workers := AList.update worker_id
                      (w\<lparr>history := history w @ [ev status_update],
                         status := status_update\<rparr>)
                      (workers s)\<rparr>)
           | None \<Rightarrow>
               if status_update = ''shutting-down'' then
                 (Inr (),
                  s\<lparr>workers := AList.update worker_id
                      (w\<lparr>history := history w @ [ev ''shutting-down''],
                         status := ''shutting-down''\<rparr>)
                      (workers s)\<rparr>)
               else
                 (Inr (),
                  s\<lparr>workers := AList.update worker_id
                      (w\<lparr>history := history w @ [ev status_update],
                         status := ''unavailable''\<rparr>)
                      (workers s)\<rparr>)))"

subsection \<open>The timeout checker\<close>

text \<open>
  One worker of one pass. The two \<open>if\<close> statements run one after the other on the same
  worker. \<open>worker.get('assignment', {})\<close> is \<open>None\<close> when the worker holds no assignment
  (the key is always present), and \<open>None.get\<close> raises \<open>AttributeError\<close> before anything
  is changed: the result is \<open>None\<close> then. The elapsed time is the value that the
  floating-point subtraction of the two readings returns, \<open>fsub now ts\<close>; Python compares
  it with the integer timeout exactly.
\<close>

definition check_ack :: "(real \<Rightarrow> real \<Rightarrow> real) \<Rightarrow> config \<Rightarrow> real \<Rightarrow> task list \<times> worker \<Rightarrow> (task list \<times> worker) option" where
  "check_ack fsub cfg now pw =
     (let (pool, w) = pw in
      if status w = ''waiting_ack'' \<and> truthy (assignment_timestamp w) then
        (case assignment_timestamp w of
           None \<Rightarrow> Some (pool, w)
         | Some ts \<Rightarrow>
             (let elapsed_ack = fsub now ts in
              if elapsed_ack > real_of_int (ACK_TIMEOUT cfg) then
                (case assignment w of
                   None \<Rightarrow> None
                 | Some a \<Rightarrow>
                     Some (pool @ file_names a,
                           w\<lparr>history := history w @
                                [\<lparr>ev_status = ''ack_timeout'',
                                  ev_details = Elapsed elapsed_ack,
                                  ev_timestamp = now\<rparr>],
                              status := ''unavailable'',
                              assignment := None,
                              assignment_timestamp := None\<rparr>))
              else Some (pool, w)))
      else Some (pool, w))"

definition check_processing :: "(real \<Rightarrow> real \<Rightarrow> real) \<Rightarrow> config \<Rightarrow> real \<Rightarrow> task list \<times> worker \<Rightarrow> (task list \<times> worker) option" where
  "check_processing fsub cfg now pw =
     (let (pool, w) = pw in
      if status w = ''processing'' \<and> truthy (processing_start w) then
        (case processing_start w of
           None \<Rightarrow> Some (pool, w)
         | Some ps \<Rightarrow>
             (let elapsed_processing = fsub now ps in
              if elapsed_processing > real_of_int (PROCESSING_TIMEOUT cfg) then
                (case assignment w of
                   None \<Rightarrow> None
                 | Some a \<Rightarrow>
                     Some (pool @ file_names a,
                           w\<lparr>history := history w @
                                [\<lparr>ev_status = ''processing_timeout'',
                                  ev_details = Elapsed elapsed_processing,
                                  ev_timestamp = now\<rparr>],
                              status := ''unavailable'',
                              assignment := None,
                              processing_start := None\<rparr>))
              else Some (pool, w)))
      else Some (pool, w))"

definition check_worker :: "(real \<Rightarrow> real \<Rightarrow> real) \<Rightarrow> config \<Rightarrow> real \<Rightarrow> task list \<times> worker \<Rightarrow> (task list \<times> worker) option" where
  "check_worker fsub cfg now pw =
     (case check_ack fsub cfg now pw of
        None \<Rightarrow> None
      | Some pw' \<Rightarrow> check_processing fsub cfg now pw')"

text \<open>
  The \<open>for\<close> loop of one pass over \<open>list(workers.items())\<close>. \<open>Inr\<close> is a pass that ran
  to its end; \<open>Inl\<close> is a pass cut short by the exception, with the pool and the workers
  as the pass left them.
\<close>

fun timeout_loop ::
  "(real \<Rightarrow> real \<Rightarrow> real) \<Rightarrow> config \<Rightarrow> real \<Rightarrow> task list \<Rightarrow> (worker_id \<times> worker) list \<Rightarrow>
   (task list \<times> (worker_id \<times> worker) list) + (task list \<times> (worker_id \<times> worker) list)" where
  "timeout_loop fsub cfg now pool [] = Inr (pool, [])"
| "timeout_loop fsub cfg now pool ((k, w) # rest) =
     (case check_worker fsub cfg now (pool, w) of
        None \<Rightarrow> Inl (pool, (k, w) # rest)
      | Some (pool', w') \<Rightarrow>
          (case timeout_loop fsub cfg now pool' rest of
             Inl (p, r) \<Rightarrow> Inl (p, (k, w') # r)
           | Inr (p, r) \<Rightarrow> Inr (p, (k, w') # r)))"

definition timeout_pass :: "(real \<Rightarrow> real \<Rightarrow> real) \<Rightarrow> config \<Rightarrow> real \<Rightarrow> state \<Rightarrow> state + state" where
  "timeout_pass fsub cfg now s =
     (case timeout_loop fsub cfg now (tasks s) (workers s) of
        Inl (p, r) \<Rightarrow> Inl (s\<lparr>tasks := p, workers := r\<rparr>)
      | Inr (p, r) \<Rightarrow> Inr (s\<lparr>tasks := p, workers := r\<rparr>))"

subsection \<open>The shutdown notifier\<close>

datatype action = SendEmailNotification | ShutdownInstance

text \<open>One pass of \<open>shutdown_notifier\<close>: the actions it performs in the state it finds.\<close>

definition shutdown_pass :: "state \<Rightarrow> action list" where
  "shutdown_pass s =
     (if workers s \<noteq> [] \<and> list_all (\<lambda>(k, w). status w = ''shutting-down'') (workers s)
      then [SendEmailNotification, ShutdownInstance] else [])"

text \<open>
  The \<open>while True\<close> loop, run on the states that its successive passes find. The result
  lists the actions of each pass that ran; \<open>shutdown_instance\<close> ends the loop, so no pass
  runs after the one that fired.
\<close>

fun shutdown_notifier :: "state list \<Rightarrow> action list list" where
  "shutdown_notifier [] = []"
| "shutdown_notifier (s # ss) =
     (if shutdown_pass s \<noteq> [] then [shutdown_pass s]
      else shutdown_pass s # shutdown_notifier ss)"

subsection \<open>Runs of the scheduler\<close>

text \<open>
  At start-up the pool holds the discovered tasks and the registry is empty
  (\<open>tasks = scan_s3_for_tasks()\<close>, \<open>workers = {}\<close>).
\<close>

definition init :: "task list \<Rightarrow> state" where
  "init discovered = \<lparr>tasks = discovered, workers = []\<rparr>"

text \<open>
  Everything that changes the state afterwards is one of the four handlers or a pass of
  the timeout checker, each under the lock. An event names the call with its arguments
  and clock readings; a run applies a list of events from left to right. A pass that
  raises leaves the state as it was at the exception.
\<close>

datatype event =
    Register worker_id string real
  | GetAssignment worker_id real real
  | Acknowledge worker_id real real
  | UpdateStatus worker_id string detail real
  | TimeoutPass real

fun step :: "(real \<Rightarrow> real \<Rightarrow> real) \<Rightarrow> config \<Rightarrow> state \<Rightarrow> event \<Rightarrow> state" where
  "step fsub cfg s (Register k d t) = snd (register_worker k d t s)"
| "step fsub cfg s (GetAssignment k t1 t2) = snd (get_assignment cfg t1 t2 k s)"
| "step fsub cfg s (Acknowledge k t1 t2) = snd (acknowledge_assignment t1 t2 k s)"
| "step fsub cfg s (UpdateStatus k st d t) = snd (update_status t k st d s)"
| "step fsub cfg s (TimeoutPass now) =
     (case timeout_pass fsub cfg now s of Inl s' \<Rightarrow> s' | Inr s' \<Rightarrow> s')"

definition run :: "(real \<Rightarrow> real \<Rightarrow> real) \<Rightarrow> config \<Rightarrow> state \<Rightarrow> event list \<Rightarrow> state" where
  "run fsub cfg s evs = foldl (step fsub cfg) s evs"

text \<open>The tasks that the workers hold, in registry order.\<close>

definition held :: "worker \<Rightarrow> task list" where
  "held w = (case assignment w of None \<Rightarrow> [] | Some a \<Rightarrow> file_names a)"

definition leased :: "state \<Rightarrow> task list" where
  "leased s = concat (map (\<lambda>(k, w). held w) (workers s))"

text \<open>
  The scheduler keeps no record of finished tasks. The tasks marked completed by an
  event are the files of the assignment that a \<open>completed\<close> report clears; the tasks
  completed in a run are those of its events.
\<close>

fun completed_by :: "state \<Rightarrow> event \<Rightarrow> task list" where
  "completed_by s (UpdateStatus k st d t) =
     (case map_of (workers s) k of
        None \<Rightarrow> []
      | Some w \<Rightarrow> if lower st = ''completed'' then held w else [])"
| "completed_by s e = []"

fun completed :: "(real \<Rightarrow> real \<Rightarrow> real) \<Rightarrow> config \<Rightarrow> state \<Rightarrow> event list \<Rightarrow> task list" where
  "completed fsub cfg s [] = []"
| "completed fsub cfg s (e # evs) = completed_by s e @ completed fsub cfg (step fsub cfg s e) evs"

subsection \<open>Consistency of a lease\<close>

text \<open>
  A worker without an assignment carries no timestamp, and the acknowledgement deadline
  and the processing start are never set together.
\<close>

definition lease_ok :: "worker \<Rightarrow> bool" where
  "lease_ok w =
     ((assignment w = None \<longrightarrow> assignment_timestamp w = None \<and> processing_start w = None)
      \<and> (assignment_timestamp w \<noteq> None \<longrightarrow> processing_start w = None))"

definition lease_consistent :: "state \<Rightarrow> bool" where
  "lease_consistent s = list_all (\<lambda>(k, w). lease_ok w) (workers s)"

text \<open>The conditions of the two checks of a pass, and what a pass does to one worker.\<close>

definition ack_due :: "(real \<Rightarrow> real \<Rightarrow> real) \<Rightarrow> config \<Rightarrow> real \<Rightarrow> worker \<Rightarrow> bool" where
  "ack_due fsub cfg now w =
     (status w = ''waiting_ack'' \<and>
      (case assignment_timestamp w of
         None \<Rightarrow> False
       | Some ts \<Rightarrow> ts \<noteq> 0 \<and> fsub now ts > real_of_int (ACK_TIMEOUT cfg)))"

definition processing_due :: "(real \<Rightarrow> real \<Rightarrow> real) \<Rightarrow> config \<Rightarrow> real \<Rightarrow> worker \<Rightarrow> bool" where
  "processing_due fsub cfg now w =
     (status w = ''processing'' \<and>
      (case processing_start w of
         None \<Rightarrow> False
       | Some ps \<Rightarrow> ps \<noteq> 0 \<and> fsub now ps > real_of_int (PROCESSING_TIMEOUT cfg)))"

definition reclaimed :: "(real \<Rightarrow> real \<Rightarrow> real) \<Rightarrow> config \<Rightarrow> real \<Rightarrow> worker \<Rightarrow> task list" where
  "reclaimed fsub cfg now w = (if ack_due fsub cfg now w \<or> processing_due fsub cfg now w then held w else [])"

definition swept :: "(real \<Rightarrow> real \<Rightarrow> real) \<Rightarrow> config \<Rightarrow> real \<Rightarrow> worker \<Rightarrow> worker" where
  "swept fsub cfg now w =
     (if ack_due fsub cfg now w then
        (case assignment_timestamp w of
           None \<Rightarrow> w
         | Some ts \<Rightarrow>
             w\<lparr>history := history w @
                  [\<lparr>ev_status = ''ack_timeout'', ev_details = Elapsed (fsub now ts),
                    ev_timestamp = now\<rparr>],
                status := ''unavailable'', assignment := None,
                assignment_timestamp := None\<rparr>)
      else if processing_due fsub cfg now w then
        (case processing_start w of
           None \<Rightarrow> w
         | Some ps \<Rightarrow>
             w\<lparr>history := history w @
                  [\<lparr>ev_status = ''processing_timeout'', ev_details = Elapsed (fsub now ps),
                    ev_timestamp = now\<rparr>],
                status := ''unavailable'', assignment := None,
                processing_start := None\<rparr>)
      else w)"

subsection \<open>A worker that has gone silent, and the times of the passes\<close>




subsection \<open>Events that keep every task accounted for\<close>

text \<open>
  An event is conserving in a state when it is not a registration under an identifier
  already in the registry (the source draws a fresh \<open>uuid4\<close> for every registration) and
  not a \<open>shutting-down\<close> report of a worker that holds files. A run is conserving when
  each of its events is, in the state it meets.
\<close>

fun conserving :: "state \<Rightarrow> event \<Rightarrow> bool" where
  "conserving s (Register k d t) = (map_of (workers s) k = None)"
| "conserving s (UpdateStatus k st d t) =
     (case map_of (workers s) k of
        None \<Rightarrow> True
      | Some w \<Rightarrow> lower st \<noteq> ''shutting-down'' \<or> held w = [])"
| "conserving s (GetAssignment k t1 t2) = True"
| "conserving s (Acknowledge k t1 t2) = True"
| "conserving s (TimeoutPass now) = True"

fun conserving_run ::
  "(real \<Rightarrow> real \<Rightarrow> real) \<Rightarrow> config \<Rightarrow> state \<Rightarrow> event list \<Rightarrow> bool" where
  "conserving_run fsub cfg s [] = True"
| "conserving_run fsub cfg s (e # evs) =
     (conserving s e \<and> conserving_run fsub cfg (step fsub cfg s e) evs)"

subsection \<open>A configuration and states to evaluate on\<close>

text \<open>
  The states below are evaluated with exact subtraction: their clock readings are small
  whole numbers, whose floating-point difference is exact.
\<close>

definition exact_sub :: "real \<Rightarrow> real \<Rightarrow> real" where
  "exact_sub a b = a - b"

text \<open>The defaults of the source: batches of 10, 60 seconds to acknowledge, 600 to process.\<close>

definition cfg0 :: config where
  "cfg0 = \<lparr>BATCH_SIZE = 10, ACK_TIMEOUT = 60, PROCESSING_TIMEOUT = 600,
           INPUT_BUCKET = ''in'', INPUT_PREFIX = ''raw'',
           OUTPUT_BUCKET = ''out'', OUTPUT_PREFIX = ''processed''\<rparr>"

text \<open>Two registered workers; \<open>w1\<close> has polled and holds the batch of the one task.\<close>

definition two_workers :: state where
  "two_workers =
     run exact_sub cfg0 (init [''a.jpg''])
       [Register ''w1'' ''{}'' 1, Register ''w2'' ''{}'' 2, GetAssignment ''w1'' 3 3]"

text \<open>Scenario A: twenty-five tasks in the pool and two registered, idle workers.\<close>

definition pool25 :: "task list" where
  "pool25 = [''t1'', ''t2'', ''t3'', ''t4'', ''t5'', ''t6'', ''t7'', ''t8'', ''t9'', ''t10'',
             ''t11'', ''t12'', ''t13'', ''t14'', ''t15'', ''t16'', ''t17'', ''t18'', ''t19'',
             ''t20'', ''t21'', ''t22'', ''t23'', ''t24'', ''t25'']"

definition scenario_a :: state where
  "scenario_a = run exact_sub cfg0 (init pool25) [Register ''w1'' ''{}'' 1, Register ''w2'' ''{}'' 2]"



text \<open>
  Scenario D: the pool is empty, both workers poll, receive the shutdown instruction
  and report \<open>shutting-down\<close>.
\<close>

definition scenario_d :: state where
  "scenario_d =
     run exact_sub cfg0 (init [])
       [Register ''w1'' ''{}'' 1, Register ''w2'' ''{}'' 2,
        GetAssignment ''w1'' 3 3, UpdateStatus ''w1'' ''shutting-down'' EmptyDetails 4,
        GetAssignment ''w2'' 5 5, UpdateStatus ''w2'' ''shutting-down'' EmptyDetails 6]"







text \<open>
  One discovered task and one worker: it registers, polls, acknowledges, and on a
  termination signal reports \<open>shutting-down\<close> the way \<open>shutdown_instance\<close> of
  \<open>Worker.py\<close> does.
\<close>

definition signalled :: "event list" where
  "signalled =
     [Register ''w1'' ''{}'' 1, GetAssignment ''w1'' 2 2, Acknowledge ''w1'' 3 3,
      UpdateStatus ''w1'' ''shutting-down'' (Payload ''Received signal 15'') 4]"

section \<open>Properties\<close>

subsection \<open>Auxiliary facts\<close>

lemma lower_completed: "lower ''completed'' = ''completed''"
  by code_simp

lemma lower_failed: "lower ''failed'' = ''failed''"
  by code_simp

lemma lower_processing: "lower ''processing'' = ''processing''"
  by code_simp

lemma lower_shutting_down: "lower ''shutting-down'' = ''shutting-down''"
  by code_simp

lemma set_update_cases:
  "(k', v') \<in> set (AList.update k v al) \<Longrightarrow> (k', v') = (k, v) \<or> (k', v') \<in> set al"
  by (induction al) (auto split: if_splits)

lemma update_keys_present:
  "map_of al k = Some w \<Longrightarrow> map fst (AList.update k v al) = map fst al"
  by (auto simp add: update_keys dest: map_of_SomeD intro: rev_image_eqI)

lemma map_of_update_other:
  "k' \<noteq> k \<Longrightarrow> map_of (AList.update k v al) k' = map_of al k'"
  by (simp add: update_conv')

lemma map_of_update_same:
  "map_of (AList.update k v al) k = Some v"
  by (simp add: update_conv')

lemmas eval_defs =
  two_workers_def scenario_a_def pool25_def run_def init_def cfg0_def
  register_worker_def get_assignment_def all_tasks_completed_def
  slice_upto_def del_upto_def Let_def

subsection \<open>Reports of failure\<close>

text \<open>
  C2. When a registered worker holds an assignment, \<open>update_status\<close> with the status
  \<open>failed\<close> succeeds, appends the files of the assignment to the end of the pool in their
  order, clears the assignment and both timestamps, sets the status to \<open>failed\<close> and
  appends a \<open>failed\<close> event to the history. The registration payload, the order of the
  registry and every other worker stay as they were.
\<close>

theorem failed_report_requeues_at_tail:
  assumes "map_of (workers s) k = Some w" and "assignment w = Some a"
  shows "\<exists>s' w'. update_status now k ''failed'' d s = (Inr (), s')
     \<and> tasks s' = tasks s @ file_names a
     \<and> map_of (workers s') k = Some w'
     \<and> assignment w' = None \<and> assignment_timestamp w' = None \<and> processing_start w' = None
     \<and> status w' = ''failed''
     \<and> history w' = history w @ [\<lparr>ev_status = ''failed'', ev_details = d, ev_timestamp = now\<rparr>]
     \<and> details w' = details w
     \<and> map fst (workers s') = map fst (workers s)
     \<and> (\<forall>k'. k' \<noteq> k \<longrightarrow> map_of (workers s') k' = map_of (workers s) k')"
  using assms
  by (simp add: update_status_def lower_failed Let_def map_of_update_same map_of_update_other
      update_keys_present)

theorem failed_report_requeues_at_tail_witness:
  "\<exists>s' w'. update_status 4 ''w1'' ''failed'' EmptyDetails two_workers = (Inr (), s')
     \<and> tasks s' = [''a.jpg'']
     \<and> map_of (workers s') ''w1'' = Some w'
     \<and> assignment w' = None \<and> status w' = ''failed''"
  using failed_report_requeues_at_tail
    [of two_workers "''w1''" _ "Batch [''a.jpg''] ''in'' ''raw'' ''out'' ''processed''"
        4 EmptyDetails]
  by (simp add: eval_defs) blast

subsection \<open>Polling again\<close>

text \<open>
  C3. When a registered worker already holds an assignment, \<open>get_assignment\<close> returns
  exactly that assignment and changes nothing: the state after the call is the state
  before it, so a second call returns the same assignment again.
\<close>

theorem get_assignment_idempotent:
  assumes "map_of (workers s) k = Some w" and "assignment w = Some a"
  shows "get_assignment cfg t1 t2 k s = (Inr a, s)
     \<and> get_assignment cfg t3 t4 k (snd (get_assignment cfg t1 t2 k s)) = (Inr a, s)"
  using assms by (simp add: get_assignment_def)

theorem get_assignment_idempotent_witness:
  "get_assignment cfg0 5 5 ''w1'' two_workers =
     (Inr (Batch [''a.jpg''] ''in'' ''raw'' ''out'' ''processed''), two_workers)
   \<and> get_assignment cfg0 6 6 ''w1'' (snd (get_assignment cfg0 5 5 ''w1'' two_workers)) =
     (Inr (Batch [''a.jpg''] ''in'' ''raw'' ''out'' ''processed''), two_workers)"
  using get_assignment_idempotent
    [of two_workers "''w1''" _ "Batch [''a.jpg''] ''in'' ''raw'' ''out'' ''processed''"
        cfg0 5 5 6 6]
  by (simp add: eval_defs)

subsection \<open>Acknowledging\<close>

text \<open>
  C6. \<open>acknowledge_assignment\<close> answers \<open>NotRegistered\<close> for an unknown worker and
  \<open>NoAssignmentPending\<close> for a worker without an assignment, and in both cases returns
  the state it was given. For a worker holding an assignment it sets the status to
  \<open>processing\<close>, the processing start to the clock reading, the assignment timestamp
  to \<open>None\<close>, and appends a \<open>processing\<close> event; the pool, the assignment and the other
  workers stay as they were.
\<close>

theorem acknowledge_assignment_cases:
  "(map_of (workers s) k = None \<longrightarrow>
      acknowledge_assignment t1 t2 k s = (Inl NotRegistered, s))
   \<and> (\<forall>w. map_of (workers s) k = Some w \<and> assignment w = None \<longrightarrow>
      acknowledge_assignment t1 t2 k s = (Inl NoAssignmentPending, s))
   \<and> (\<forall>w a. map_of (workers s) k = Some w \<and> assignment w = Some a \<longrightarrow>
      (\<exists>s' w'. acknowledge_assignment t1 t2 k s = (Inr (), s')
         \<and> tasks s' = tasks s
         \<and> map_of (workers s') k = Some w'
         \<and> status w' = ''processing''
         \<and> processing_start w' = Some t1
         \<and> assignment_timestamp w' = None
         \<and> history w' = history w @
              [\<lparr>ev_status = ''processing'', ev_details = EmptyDetails, ev_timestamp = t2\<rparr>]
         \<and> assignment w' = Some a
         \<and> details w' = details w
         \<and> map fst (workers s') = map fst (workers s)
         \<and> (\<forall>k'. k' \<noteq> k \<longrightarrow> map_of (workers s') k' = map_of (workers s) k')))"
  by (simp add: acknowledge_assignment_def map_of_update_same map_of_update_other
      update_keys_present)

theorem acknowledge_assignment_cases_witness:
  "acknowledge_assignment 4 5 ''w9'' two_workers = (Inl NotRegistered, two_workers)
   \<and> acknowledge_assignment 4 5 ''w2'' two_workers = (Inl NoAssignmentPending, two_workers)
   \<and> (\<exists>s' w'. acknowledge_assignment 4 5 ''w1'' two_workers = (Inr (), s')
         \<and> map_of (workers s') ''w1'' = Some w'
         \<and> status w' = ''processing'' \<and> processing_start w' = Some 4
         \<and> assignment_timestamp w' = None)"
proof -
  have u: "map_of (workers two_workers) ''w9'' = None"
    by (simp add: eval_defs)
  have n: "\<exists>w. map_of (workers two_workers) ''w2'' = Some w \<and> assignment w = None"
    by (simp add: eval_defs)
  have h: "\<exists>w a. map_of (workers two_workers) ''w1'' = Some w \<and> assignment w = Some a"
    by (simp add: eval_defs)
  from u acknowledge_assignment_cases [of two_workers "''w9''" 4 5]
  have 1: "acknowledge_assignment 4 5 ''w9'' two_workers = (Inl NotRegistered, two_workers)"
    by blast
  from n acknowledge_assignment_cases [of two_workers "''w2''" 4 5]
  have 2: "acknowledge_assignment 4 5 ''w2'' two_workers = (Inl NoAssignmentPending, two_workers)"
    by blast
  from h acknowledge_assignment_cases [of two_workers "''w1''" 4 5]
  have 3: "\<exists>s' w'. acknowledge_assignment 4 5 ''w1'' two_workers = (Inr (), s')
         \<and> map_of (workers s') ''w1'' = Some w'
         \<and> status w' = ''processing'' \<and> processing_start w' = Some 4
         \<and> assignment_timestamp w' = None"
    by blast
  from 1 2 3 show ?thesis by blast
qed

subsection \<open>Statuses outside the protocol\<close>

lemma lower_Busy: "lower ''Busy'' = ''busy''"
  by code_simp

lemma lower_busy: "lower ''busy'' = ''busy''"
  by code_simp

text \<open>
  C8, as amended. \<open>update_status\<close> lower-cases the reported string first and checks it
  against no list of statuses. For a registered worker that holds an assignment, a
  report whose lower-cased string is none of \<open>completed\<close>, \<open>failed\<close>, \<open>processing\<close>,
  \<open>shutting-down\<close> stores the lower-cased string as the status of the worker and of the
  appended history event. For a registered worker that holds no assignment, a report
  whose lower-cased string is not \<open>shutting-down\<close> appends a history event with the
  lower-cased string and sets the status to \<open>unavailable\<close>. In both cases the pool, the
  assignment and the timestamps stay as they were.
\<close>

theorem free_form_status_stored_lowercased:
  assumes "map_of (workers s) k = Some w"
  shows "\<exists>s' w'. update_status now k st d s = (Inr (), s')
     \<and> map_of (workers s') k = Some w'
     \<and> (assignment w \<noteq> None
          \<and> lower st \<notin> {''completed'', ''failed'', ''processing'', ''shutting-down''} \<longrightarrow>
        status w' = lower st
        \<and> history w' = history w @
             [\<lparr>ev_status = lower st, ev_details = d, ev_timestamp = now\<rparr>]
        \<and> tasks s' = tasks s \<and> assignment w' = assignment w
        \<and> assignment_timestamp w' = assignment_timestamp w
        \<and> processing_start w' = processing_start w)
     \<and> (assignment w = None \<and> lower st \<noteq> ''shutting-down'' \<longrightarrow>
        status w' = ''unavailable''
        \<and> history w' = history w @
             [\<lparr>ev_status = lower st, ev_details = d, ev_timestamp = now\<rparr>]
        \<and> tasks s' = tasks s \<and> assignment w' = assignment w
        \<and> assignment_timestamp w' = assignment_timestamp w
        \<and> processing_start w' = processing_start w)"
proof (cases "assignment w")
  case None
  with assms show ?thesis
    by (simp add: update_status_def Let_def map_of_update_same)
next
  case (Some a)
  with assms show ?thesis
    by (simp add: update_status_def Let_def map_of_update_same)
qed

theorem free_form_status_stored_lowercased_witness:
  "(\<exists>s' w'. update_status 4 ''w1'' ''Busy'' EmptyDetails two_workers = (Inr (), s')
     \<and> map_of (workers s') ''w1'' = Some w'
     \<and> status w' = ''busy'')
   \<and> (\<exists>s' w'. update_status 4 ''w2'' ''Busy'' EmptyDetails two_workers = (Inr (), s')
     \<and> map_of (workers s') ''w2'' = Some w'
     \<and> status w' = ''unavailable'')"
proof -
  have h1: "\<exists>w. map_of (workers two_workers) ''w1'' = Some w \<and> assignment w \<noteq> None"
    by (simp add: eval_defs)
  have h2: "\<exists>w. map_of (workers two_workers) ''w2'' = Some w \<and> assignment w = None"
    by (simp add: eval_defs)
  have l: "lower ''Busy'' \<notin> {''completed'', ''failed'', ''processing'', ''shutting-down''}"
    "lower ''Busy'' \<noteq> ''shutting-down''"
    by (simp_all add: lower_Busy)
  from h1 obtain w1 where w1: "map_of (workers two_workers) ''w1'' = Some w1"
      "assignment w1 \<noteq> None"
    by blast
  from h2 obtain w2 where w2: "map_of (workers two_workers) ''w2'' = Some w2"
      "assignment w2 = None"
    by blast
  from free_form_status_stored_lowercased [OF w1(1), of 4 "''Busy''" EmptyDetails] w1(2) l(1)
  have 1: "\<exists>s' w'. update_status 4 ''w1'' ''Busy'' EmptyDetails two_workers = (Inr (), s')
     \<and> map_of (workers s') ''w1'' = Some w' \<and> status w' = lower ''Busy''"
    by blast
  from free_form_status_stored_lowercased [OF w2(1), of 4 "''Busy''" EmptyDetails] w2(2) l(2)
  have 2: "\<exists>s' w'. update_status 4 ''w2'' ''Busy'' EmptyDetails two_workers = (Inr (), s')
     \<and> map_of (workers s') ''w2'' = Some w' \<and> status w' = ''unavailable''"
    by blast
  from 1 2 show ?thesis unfolding lower_Busy by blast
qed

text \<open>
  The claim as written fails twice on \<open>two_workers\<close>: \<open>w1\<close>, who holds a batch, reports
  \<open>Busy\<close> and is stored as \<open>busy\<close>; \<open>w2\<close>, who holds nothing, reports \<open>busy\<close> and is
  stored as \<open>unavailable\<close>.
\<close>

theorem free_form_status_verbatim_counterexample:
  "map_option status
     (map_of (workers (snd (update_status 4 ''w1'' ''Busy'' EmptyDetails two_workers))) ''w1'')
     = Some ''busy''
   \<and> map_option status
     (map_of (workers (snd (update_status 4 ''w1'' ''Busy'' EmptyDetails two_workers))) ''w1'')
     \<noteq> Some ''Busy''
   \<and> map_option status
     (map_of (workers (snd (update_status 4 ''w2'' ''busy'' EmptyDetails two_workers))) ''w2'')
     = Some ''unavailable''"
  by (simp add: eval_defs update_status_def lower_Busy lower_busy)

subsection \<open>Batches from the front of the pool\<close>

text \<open>
  C7. When a registered worker without an assignment polls a non-empty pool and
  \<open>BATCH_SIZE\<close> is not negative, \<open>get_assignment\<close> returns the first \<open>BATCH_SIZE\<close> tasks
  of the pool (all of them when the pool holds fewer) and leaves the rest of the pool
  in order. In scenario A, with batches of 10 and the pool \<open>t1\<close> to \<open>t25\<close>, the first
  worker receives \<open>t1\<close> to \<open>t10\<close>, 15 tasks remain, and the second worker then receives
  \<open>t11\<close> to \<open>t20\<close>.
\<close>

theorem get_assignment_fifo_batch:
  "(\<forall>w. map_of (workers s) k = Some w \<and> assignment w = None \<and> tasks s \<noteq> []
        \<and> 0 \<le> BATCH_SIZE cfg \<longrightarrow>
      (\<exists>s'. get_assignment cfg t1 t2 k s =
          (Inr (Batch (take (nat (BATCH_SIZE cfg)) (tasks s)) (INPUT_BUCKET cfg)
                  (INPUT_PREFIX cfg) (OUTPUT_BUCKET cfg) (OUTPUT_PREFIX cfg)), s')
         \<and> tasks s' = drop (nat (BATCH_SIZE cfg)) (tasks s)
         \<and> tasks s = take (nat (BATCH_SIZE cfg)) (tasks s) @ tasks s'
         \<and> length (take (nat (BATCH_SIZE cfg)) (tasks s))
             = min (nat (BATCH_SIZE cfg)) (length (tasks s))))
   \<and> fst (get_assignment cfg0 3 3 ''w1'' scenario_a) =
       Inr (Batch [''t1'', ''t2'', ''t3'', ''t4'', ''t5'', ''t6'', ''t7'', ''t8'', ''t9'', ''t10'']
              ''in'' ''raw'' ''out'' ''processed'')
   \<and> length (tasks (snd (get_assignment cfg0 3 3 ''w1'' scenario_a))) = 15
   \<and> fst (get_assignment cfg0 4 4 ''w2'' (snd (get_assignment cfg0 3 3 ''w1'' scenario_a))) =
       Inr (Batch [''t11'', ''t12'', ''t13'', ''t14'', ''t15'', ''t16'', ''t17'', ''t18'',
                   ''t19'', ''t20''] ''in'' ''raw'' ''out'' ''processed'')"
proof (intro conjI)
  show "\<forall>w. map_of (workers s) k = Some w \<and> assignment w = None \<and> tasks s \<noteq> []
        \<and> 0 \<le> BATCH_SIZE cfg \<longrightarrow>
      (\<exists>s'. get_assignment cfg t1 t2 k s =
          (Inr (Batch (take (nat (BATCH_SIZE cfg)) (tasks s)) (INPUT_BUCKET cfg)
                  (INPUT_PREFIX cfg) (OUTPUT_BUCKET cfg) (OUTPUT_PREFIX cfg)), s')
         \<and> tasks s' = drop (nat (BATCH_SIZE cfg)) (tasks s)
         \<and> tasks s = take (nat (BATCH_SIZE cfg)) (tasks s) @ tasks s'
         \<and> length (take (nat (BATCH_SIZE cfg)) (tasks s))
             = min (nat (BATCH_SIZE cfg)) (length (tasks s)))"
    by (simp add: get_assignment_def all_tasks_completed_def slice_upto_def del_upto_def
        min.commute)
next
  show "fst (get_assignment cfg0 3 3 ''w1'' scenario_a) =
       Inr (Batch [''t1'', ''t2'', ''t3'', ''t4'', ''t5'', ''t6'', ''t7'', ''t8'', ''t9'', ''t10'']
              ''in'' ''raw'' ''out'' ''processed'')"
    by (simp add: eval_defs)
next
  show "length (tasks (snd (get_assignment cfg0 3 3 ''w1'' scenario_a))) = 15"
    by (simp add: eval_defs)
next
  show "fst (get_assignment cfg0 4 4 ''w2'' (snd (get_assignment cfg0 3 3 ''w1'' scenario_a))) =
       Inr (Batch [''t11'', ''t12'', ''t13'', ''t14'', ''t15'', ''t16'', ''t17'', ''t18'',
                   ''t19'', ''t20''] ''in'' ''raw'' ''out'' ''processed'')"
    by (simp add: eval_defs)
qed

theorem get_assignment_fifo_batch_witness:
  "\<exists>s'. get_assignment cfg0 3 3 ''w1'' scenario_a =
       (Inr (Batch (take 10 (tasks scenario_a)) ''in'' ''raw'' ''out'' ''processed''), s')
     \<and> tasks s' = drop 10 (tasks scenario_a)"
proof -
  have h: "\<exists>w. map_of (workers scenario_a) ''w1'' = Some w \<and> assignment w = None
      \<and> tasks scenario_a \<noteq> [] \<and> 0 \<le> BATCH_SIZE cfg0"
    by (simp add: eval_defs)
  have c: "BATCH_SIZE cfg0 = 10" "INPUT_BUCKET cfg0 = ''in''" "INPUT_PREFIX cfg0 = ''raw''"
    "OUTPUT_BUCKET cfg0 = ''out''" "OUTPUT_PREFIX cfg0 = ''processed''"
    by (simp_all add: cfg0_def)
  from get_assignment_fifo_batch [of scenario_a "''w1''" cfg0 3 3] h
  have "\<exists>s'. get_assignment cfg0 3 3 ''w1'' scenario_a =
          (Inr (Batch (take (nat (BATCH_SIZE cfg0)) (tasks scenario_a)) (INPUT_BUCKET cfg0)
                  (INPUT_PREFIX cfg0) (OUTPUT_BUCKET cfg0) (OUTPUT_PREFIX cfg0)), s')
         \<and> tasks s' = drop (nat (BATCH_SIZE cfg0)) (tasks scenario_a)"
    by blast
  then show ?thesis by (simp add: c)
qed

subsection \<open>The shutdown notifier\<close>

lemma shutdown_pass_iff:
  "shutdown_pass s = (if workers s \<noteq> [] \<and> (\<forall>(k, w)\<in>set (workers s). status w = ''shutting-down'')
      then [SendEmailNotification, ShutdownInstance] else [])"
  by (simp add: shutdown_pass_def list_all_iff)

lemma shutdown_notifier_length: "length (shutdown_notifier ss) \<le> length ss"
  by (induction ss) auto

lemma shutdown_notifier_nth:
  "i < length (shutdown_notifier ss) \<Longrightarrow> shutdown_notifier ss ! i = shutdown_pass (ss ! i)"
  by (induction ss arbitrary: i) (auto simp add: nth_Cons split: nat.splits if_splits)

lemma shutdown_notifier_fire_last:
  "i < length (shutdown_notifier ss) \<Longrightarrow> shutdown_notifier ss ! i \<noteq> [] \<Longrightarrow>
     Suc i = length (shutdown_notifier ss)"
  by (induction ss arbitrary: i) (auto simp add: nth_Cons split: nat.splits if_splits)

lemma shutdown_notifier_concat:
  "concat (shutdown_notifier ss) =
     (if \<exists>s\<in>set ss. shutdown_pass s \<noteq> [] then [SendEmailNotification, ShutdownInstance] else [])"
  by (induction ss) (auto simp add: shutdown_pass_def)

lemma shutdown_notifier_stops:
  "shutdown_pass s \<noteq> [] \<Longrightarrow> shutdown_notifier (pre @ s # post) = shutdown_notifier (pre @ [s])"
  by (induction pre) auto

text \<open>
  C5. A pass of the shutdown notifier sends the e-mail and shuts the instance down
  exactly when the registry is not empty and every worker has the status
  \<open>shutting-down\<close>; otherwise it does nothing. Over any sequence of states that the
  passes find, every pass that runs acts on the state it finds, a pass that fires is
  the last pass to run, so the two actions happen once if some state is drained and
  never otherwise, and the states after the firing pass are never looked at.
\<close>

theorem shutdown_notifier_one_shot:
  "(shutdown_pass s = [SendEmailNotification, ShutdownInstance] \<longleftrightarrow>
      workers s \<noteq> [] \<and> (\<forall>(k, w)\<in>set (workers s). status w = ''shutting-down''))
   \<and> (shutdown_pass s = [] \<longleftrightarrow>
      \<not> (workers s \<noteq> [] \<and> (\<forall>(k, w)\<in>set (workers s). status w = ''shutting-down'')))
   \<and> length (shutdown_notifier ss) \<le> length ss
   \<and> (\<forall>i < length (shutdown_notifier ss). shutdown_notifier ss ! i = shutdown_pass (ss ! i))
   \<and> (\<forall>i < length (shutdown_notifier ss).
        shutdown_notifier ss ! i \<noteq> [] \<longrightarrow> Suc i = length (shutdown_notifier ss))
   \<and> concat (shutdown_notifier ss) =
       (if \<exists>s\<in>set ss. shutdown_pass s \<noteq> [] then [SendEmailNotification, ShutdownInstance]
        else [])
   \<and> (shutdown_pass s \<noteq> [] \<longrightarrow>
        shutdown_notifier (pre @ s # post) = shutdown_notifier (pre @ [s]))"
  using shutdown_notifier_length [of ss] shutdown_notifier_nth [of _ ss]
    shutdown_notifier_fire_last [of _ ss] shutdown_notifier_concat [of ss]
    shutdown_notifier_stops [of s pre post]
  by (simp add: shutdown_pass_iff)

lemma scenario_d_workers:
  "map (\<lambda>(k, w). (k, status w, assignment w)) (workers scenario_d) =
     [(''w1'', ''shutting-down'', None), (''w2'', ''shutting-down'', None)]"
  by (simp add: scenario_d_def eval_defs update_status_def lower_shutting_down)

theorem shutdown_notifier_one_shot_witness:
  "shutdown_pass scenario_d = [SendEmailNotification, ShutdownInstance]
   \<and> shutdown_notifier [two_workers, scenario_d, scenario_d] =
       shutdown_notifier [two_workers, scenario_d]
   \<and> concat (shutdown_notifier [two_workers, scenario_d, scenario_d]) =
       [SendEmailNotification, ShutdownInstance]"
proof -
  have d: "workers scenario_d \<noteq> []
      \<and> (\<forall>(k, w)\<in>set (workers scenario_d). status w = ''shutting-down'')"
    by (simp add: scenario_d_def eval_defs update_status_def lower_shutting_down)
  note t = shutdown_notifier_one_shot
    [of scenario_d "[two_workers, scenario_d, scenario_d]" "[two_workers]" "[scenario_d]"]
  from t d have 1: "shutdown_pass scenario_d = [SendEmailNotification, ShutdownInstance]"
    by blast
  then have ne: "shutdown_pass scenario_d \<noteq> []"
    by simp
  from t ne have "shutdown_notifier ([two_workers] @ scenario_d # [scenario_d]) =
       shutdown_notifier ([two_workers] @ [scenario_d])"
    by blast
  then have 2: "shutdown_notifier [two_workers, scenario_d, scenario_d] =
       shutdown_notifier [two_workers, scenario_d]"
    by (simp del: shutdown_notifier.simps)
  from ne have ex: "\<exists>s\<in>set [two_workers, scenario_d, scenario_d]. shutdown_pass s \<noteq> []"
    by simp
  from t have "concat (shutdown_notifier [two_workers, scenario_d, scenario_d]) =
       (if \<exists>s\<in>set [two_workers, scenario_d, scenario_d]. shutdown_pass s \<noteq> []
        then [SendEmailNotification, ShutdownInstance] else [])"
    by blast
  with ex have 3: "concat (shutdown_notifier [two_workers, scenario_d, scenario_d]) =
       [SendEmailNotification, ShutdownInstance]"
    by (simp del: shutdown_notifier.simps)
  from 1 2 3 show ?thesis by blast
qed

subsection \<open>A pass of the timeout checker\<close>

text \<open>
  On a worker that holds an assignment, or that neither check applies to, the two
  checks return the tasks in \<open>reclaimed\<close> to the pool and leave the worker as \<open>swept\<close>
  describes. A pass over consistent leases therefore never raises.
\<close>

lemma lease_ok_due_assignment:
  "lease_ok w \<Longrightarrow> ack_due fsub cfg now w \<or> processing_due fsub cfg now w \<Longrightarrow> assignment w \<noteq> None"
  by (auto simp add: lease_ok_def ack_due_def processing_due_def split: option.splits)

lemma ack_processing_exclusive:
  "ack_due fsub cfg now w \<Longrightarrow> \<not> processing_due fsub cfg now w"
  by (auto simp add: ack_due_def processing_due_def)

lemma check_ack_eq:
  "check_ack fsub cfg now (pool, w) =
     (if ack_due fsub cfg now w then
        (case assignment w of None \<Rightarrow> None
         | Some a \<Rightarrow> Some (pool @ file_names a, swept fsub cfg now w))
      else Some (pool, w))"
  by (auto simp add: check_ack_def ack_due_def swept_def Let_def split: option.splits)

lemma check_processing_eq:
  "\<not> ack_due fsub cfg now w \<Longrightarrow> check_processing fsub cfg now (pool, w) =
     (if processing_due fsub cfg now w then
        (case assignment w of None \<Rightarrow> None
         | Some a \<Rightarrow> Some (pool @ file_names a, swept fsub cfg now w))
      else Some (pool, w))"
  by (auto simp add: check_processing_def processing_due_def swept_def Let_def
      split: option.splits)

lemma swept_status_due:
  "ack_due fsub cfg now w \<Longrightarrow> status (swept fsub cfg now w) = ''unavailable''"
  by (auto simp add: swept_def ack_due_def split: option.splits)

lemma check_processing_after_ack:
  "ack_due fsub cfg now w \<Longrightarrow>
     check_processing fsub cfg now (pool, swept fsub cfg now w) = Some (pool, swept fsub cfg now w)"
  by (simp add: check_processing_def swept_status_due)

lemma check_worker_eq:
  assumes "assignment w \<noteq> None \<or> \<not> (ack_due fsub cfg now w \<or> processing_due fsub cfg now w)"
  shows "check_worker fsub cfg now (pool, w) = Some (pool @ reclaimed fsub cfg now w, swept fsub cfg now w)"
proof (cases "ack_due fsub cfg now w")
  case True
  with assms obtain a where a: "assignment w = Some a" by auto
  from True a show ?thesis
    by (simp add: check_worker_def check_ack_eq check_processing_after_ack reclaimed_def
        held_def)
next
  case False
  show ?thesis
  proof (cases "processing_due fsub cfg now w")
    case True
    with assms obtain a where a: "assignment w = Some a" by auto
    from False True a show ?thesis
      by (simp add: check_worker_def check_ack_eq check_processing_eq reclaimed_def held_def)
  next
    case nd: False
    from False nd show ?thesis
      by (simp add: check_worker_def check_ack_eq check_processing_eq reclaimed_def swept_def)
  qed
qed


lemma timeout_loop_eq:
  "\<forall>(k, w)\<in>set ws. assignment w \<noteq> None \<or> \<not> (ack_due fsub cfg now w \<or> processing_due fsub cfg now w) \<Longrightarrow>
   timeout_loop fsub cfg now pool ws =
     Inr (pool @ concat (map (\<lambda>(k, w). reclaimed fsub cfg now w) ws),
          map (\<lambda>(k, w). (k, swept fsub cfg now w)) ws)"
proof (induction ws arbitrary: pool)
  case Nil
  then show ?case by simp
next
  case (Cons kw ws)
  obtain k w where kw: "kw = (k, w)" by (cases kw)
  from Cons.prems kw
  have w: "assignment w \<noteq> None \<or> \<not> (ack_due fsub cfg now w \<or> processing_due fsub cfg now w)"
    by simp
  from Cons.prems
  have rest: "\<forall>(k, w)\<in>set ws.
      assignment w \<noteq> None \<or> \<not> (ack_due fsub cfg now w \<or> processing_due fsub cfg now w)"
    by simp
  show ?case
    by (simp add: kw check_worker_eq [OF w] Cons.IH [OF rest])
qed

lemma timeout_pass_eq:
  assumes "lease_consistent s"
  shows "timeout_pass fsub cfg now s =
     Inr (s\<lparr>tasks := tasks s @ concat (map (\<lambda>(k, w). reclaimed fsub cfg now w) (workers s)),
            workers := map (\<lambda>(k, w). (k, swept fsub cfg now w)) (workers s)\<rparr>)"
proof -
  from assms
  have "\<forall>(k, w)\<in>set (workers s).
      assignment w \<noteq> None \<or> \<not> (ack_due fsub cfg now w \<or> processing_due fsub cfg now w)"
    by (auto simp add: lease_consistent_def list_all_iff dest: lease_ok_due_assignment)
  then show ?thesis
    by (simp add: timeout_pass_def timeout_loop_eq)
qed

lemma swept_ack:
  assumes "status w = ''waiting_ack''" "assignment_timestamp w = Some ts" "ts \<noteq> 0"
    "fsub now ts > real_of_int (ACK_TIMEOUT cfg)"
  shows "ack_due fsub cfg now w"
    and "swept fsub cfg now w =
      w\<lparr>history := history w @
           [\<lparr>ev_status = ''ack_timeout'', ev_details = Elapsed (fsub now ts),
             ev_timestamp = now\<rparr>],
         status := ''unavailable'', assignment := None, assignment_timestamp := None\<rparr>"
  using assms by (simp_all add: ack_due_def swept_def)

lemma swept_processing:
  assumes "status w = ''processing''" "processing_start w = Some ps" "ps \<noteq> 0"
    "fsub now ps > real_of_int (PROCESSING_TIMEOUT cfg)"
  shows "processing_due fsub cfg now w"
    and "swept fsub cfg now w =
      w\<lparr>history := history w @
           [\<lparr>ev_status = ''processing_timeout'', ev_details = Elapsed (fsub now ps),
             ev_timestamp = now\<rparr>],
         status := ''unavailable'', assignment := None, processing_start := None\<rparr>"
  using assms by (simp_all add: ack_due_def processing_due_def swept_def)


lemma concat_reclaimed_split:
  assumes "i < length ws" "ws ! i = (k, w)"
  shows "concat (map (\<lambda>(k, w). reclaimed fsub cfg now w) ws) =
     concat (map (\<lambda>(k, w). reclaimed fsub cfg now w) (take i ws)) @ reclaimed fsub cfg now w @
     concat (map (\<lambda>(k, w). reclaimed fsub cfg now w) (drop (Suc i) ws))"
proof -
  from assms id_take_nth_drop [of i ws] have "ws = take i ws @ (k, w) # drop (Suc i) ws"
    by simp
  then have "concat (map (\<lambda>(k, w). reclaimed fsub cfg now w) ws) =
      concat (map (\<lambda>(k, w). reclaimed fsub cfg now w) (take i ws @ (k, w) # drop (Suc i) ws))"
    by simp
  then show ?thesis by simp
qed

text \<open>
  C4. In a state with consistent leases a pass with the clock reading \<open>now\<close> runs to its
  end and keeps the registry's order. The pool afterwards is the pool before, then the
  files reclaimed from the workers before the one considered, then those reclaimed
  from it, then those reclaimed from the workers after it. The elapsed time is the
  difference that the program computes, \<open>fsub now ts\<close>. A worker in \<open>waiting_ack\<close> whose
  assignment timestamp \<open>ts\<close> is a clock reading (not \<open>0.0\<close>, which Python treats as
  false) with \<open>fsub now ts > ACK_TIMEOUT\<close> has exactly the files of its assignment
  reclaimed, its assignment and assignment timestamp cleared, its status set to
  \<open>unavailable\<close> and an \<open>ack_timeout\<close> event with the elapsed time appended. The same
  holds for \<open>processing\<close> with the processing start and \<open>PROCESSING_TIMEOUT\<close>. A worker
  whose elapsed time equals the timeout is left exactly as it was and nothing is
  reclaimed from it.
\<close>

theorem timeout_pass_postcondition:
  assumes "lease_consistent s" and "i < length (workers s)" and "workers s ! i = (k, w)"
  shows "\<exists>s' w'. timeout_pass fsub cfg now s = Inr s'
     \<and> length (workers s') = length (workers s) \<and> workers s' ! i = (k, w')
     \<and> tasks s' = tasks s
          @ concat (map (\<lambda>(k, w). reclaimed fsub cfg now w) (take i (workers s)))
          @ reclaimed fsub cfg now w
          @ concat (map (\<lambda>(k, w). reclaimed fsub cfg now w) (drop (Suc i) (workers s)))
     \<and> (\<forall>ts. status w = ''waiting_ack'' \<and> assignment_timestamp w = Some ts \<and> ts \<noteq> 0
            \<and> fsub now ts > real_of_int (ACK_TIMEOUT cfg) \<longrightarrow>
          (\<exists>a. assignment w = Some a \<and> reclaimed fsub cfg now w = file_names a)
          \<and> assignment w' = None \<and> assignment_timestamp w' = None
          \<and> status w' = ''unavailable''
          \<and> history w' = history w @
              [\<lparr>ev_status = ''ack_timeout'', ev_details = Elapsed (fsub now ts),
                ev_timestamp = now\<rparr>]
          \<and> processing_start w' = processing_start w \<and> details w' = details w)
     \<and> (\<forall>ps. status w = ''processing'' \<and> processing_start w = Some ps \<and> ps \<noteq> 0
            \<and> fsub now ps > real_of_int (PROCESSING_TIMEOUT cfg) \<longrightarrow>
          (\<exists>a. assignment w = Some a \<and> reclaimed fsub cfg now w = file_names a)
          \<and> assignment w' = None \<and> processing_start w' = None
          \<and> status w' = ''unavailable''
          \<and> history w' = history w @
              [\<lparr>ev_status = ''processing_timeout'', ev_details = Elapsed (fsub now ps),
                ev_timestamp = now\<rparr>]
          \<and> assignment_timestamp w' = assignment_timestamp w \<and> details w' = details w)
     \<and> (\<forall>ts. status w = ''waiting_ack'' \<and> assignment_timestamp w = Some ts
            \<and> fsub now ts = real_of_int (ACK_TIMEOUT cfg) \<longrightarrow>
          w' = w \<and> reclaimed fsub cfg now w = [])
     \<and> (\<forall>ps. status w = ''processing'' \<and> processing_start w = Some ps
            \<and> fsub now ps = real_of_int (PROCESSING_TIMEOUT cfg) \<longrightarrow>
          w' = w \<and> reclaimed fsub cfg now w = [])"
proof -
  let ?s' = "s\<lparr>tasks := tasks s @ concat (map (\<lambda>(k, w). reclaimed fsub cfg now w) (workers s)),
               workers := map (\<lambda>(k, w). (k, swept fsub cfg now w)) (workers s)\<rparr>"
  have pass: "timeout_pass fsub cfg now s = Inr ?s'"
    by (rule timeout_pass_eq [OF assms(1)])
  have len: "length (workers ?s') = length (workers s)"
    by simp
  have nth: "workers ?s' ! i = (k, swept fsub cfg now w)"
    using assms(2,3) by simp
  have pool: "tasks ?s' = tasks s
          @ concat (map (\<lambda>(k, w). reclaimed fsub cfg now w) (take i (workers s)))
          @ reclaimed fsub cfg now w
          @ concat (map (\<lambda>(k, w). reclaimed fsub cfg now w) (drop (Suc i) (workers s)))"
    using concat_reclaimed_split [OF assms(2,3)] by simp
  from assms have ok: "lease_ok w"
    by (auto simp add: lease_consistent_def list_all_length)
  have ack: "(\<exists>a. assignment w = Some a \<and> reclaimed fsub cfg now w = file_names a)
          \<and> assignment (swept fsub cfg now w) = None
          \<and> assignment_timestamp (swept fsub cfg now w) = None
          \<and> status (swept fsub cfg now w) = ''unavailable''
          \<and> history (swept fsub cfg now w) = history w @
              [\<lparr>ev_status = ''ack_timeout'', ev_details = Elapsed (fsub now ts),
                ev_timestamp = now\<rparr>]
          \<and> processing_start (swept fsub cfg now w) = processing_start w
          \<and> details (swept fsub cfg now w) = details w"
    if h: "status w = ''waiting_ack'' \<and> assignment_timestamp w = Some ts \<and> ts \<noteq> 0
            \<and> fsub now ts > real_of_int (ACK_TIMEOUT cfg)" for ts
  proof -
    from h have due: "ack_due fsub cfg now w"
      and sw: "swept fsub cfg now w =
        w\<lparr>history := history w @
           [\<lparr>ev_status = ''ack_timeout'', ev_details = Elapsed (fsub now ts),
             ev_timestamp = now\<rparr>],
         status := ''unavailable'', assignment := None, assignment_timestamp := None\<rparr>"
      by (simp_all add: swept_ack)
    from lease_ok_due_assignment [OF ok] due obtain a where a: "assignment w = Some a"
      by blast
    from due a have "reclaimed fsub cfg now w = file_names a"
      by (simp add: reclaimed_def held_def)
    with a have "\<exists>a. assignment w = Some a \<and> reclaimed fsub cfg now w = file_names a"
      by blast
    then show ?thesis by (simp add: sw)
  qed
  have proc: "(\<exists>a. assignment w = Some a \<and> reclaimed fsub cfg now w = file_names a)
          \<and> assignment (swept fsub cfg now w) = None
          \<and> processing_start (swept fsub cfg now w) = None
          \<and> status (swept fsub cfg now w) = ''unavailable''
          \<and> history (swept fsub cfg now w) = history w @
              [\<lparr>ev_status = ''processing_timeout'', ev_details = Elapsed (fsub now ps),
                ev_timestamp = now\<rparr>]
          \<and> assignment_timestamp (swept fsub cfg now w) = assignment_timestamp w
          \<and> details (swept fsub cfg now w) = details w"
    if h: "status w = ''processing'' \<and> processing_start w = Some ps \<and> ps \<noteq> 0
            \<and> fsub now ps > real_of_int (PROCESSING_TIMEOUT cfg)" for ps
  proof -
    from h have due: "processing_due fsub cfg now w"
      and sw: "swept fsub cfg now w =
        w\<lparr>history := history w @
           [\<lparr>ev_status = ''processing_timeout'', ev_details = Elapsed (fsub now ps),
             ev_timestamp = now\<rparr>],
         status := ''unavailable'', assignment := None, processing_start := None\<rparr>"
      by (simp_all add: swept_processing)
    from lease_ok_due_assignment [OF ok] due obtain a where a: "assignment w = Some a"
      by blast
    from due a have "reclaimed fsub cfg now w = file_names a"
      by (simp add: reclaimed_def held_def)
    with a have "\<exists>a. assignment w = Some a \<and> reclaimed fsub cfg now w = file_names a"
      by blast
    then show ?thesis by (simp add: sw)
  qed
  have edge_ack: "swept fsub cfg now w = w \<and> reclaimed fsub cfg now w = []"
    if "status w = ''waiting_ack'' \<and> assignment_timestamp w = Some ts
            \<and> fsub now ts = real_of_int (ACK_TIMEOUT cfg)" for ts
    using that by (simp add: swept_def reclaimed_def ack_due_def processing_due_def)
  have edge_proc: "swept fsub cfg now w = w \<and> reclaimed fsub cfg now w = []"
    if "status w = ''processing'' \<and> processing_start w = Some ps
            \<and> fsub now ps = real_of_int (PROCESSING_TIMEOUT cfg)" for ps
    using that by (simp add: swept_def reclaimed_def ack_due_def processing_due_def)
  from pass len nth pool ack proc edge_ack edge_proc show ?thesis
    by blast
qed

lemma two_workers_first:
  "\<exists>w. workers two_workers ! 0 = (''w1'', w) \<and> status w = ''waiting_ack''
     \<and> assignment_timestamp w = Some 3
     \<and> assignment w = Some (Batch [''a.jpg''] ''in'' ''raw'' ''out'' ''processed'')"
  by (simp add: eval_defs)

lemma two_workers_consistent: "lease_consistent two_workers"
  by (simp add: eval_defs lease_consistent_def lease_ok_def)

theorem timeout_pass_postcondition_witness:
  "(\<exists>s' w'. timeout_pass exact_sub cfg0 100 two_workers = Inr s'
      \<and> workers s' ! 0 = (''w1'', w')
      \<and> status w' = ''unavailable'' \<and> assignment w' = None
      \<and> assignment_timestamp w' = None
      \<and> tasks s' = tasks two_workers
           @ concat (map (\<lambda>(k, w). reclaimed exact_sub cfg0 100 w) (take 0 (workers two_workers)))
           @ [''a.jpg'']
           @ concat (map (\<lambda>(k, w). reclaimed exact_sub cfg0 100 w)
               (drop (Suc 0) (workers two_workers))))
   \<and> (\<exists>s' w'. timeout_pass exact_sub cfg0 63 two_workers = Inr s'
      \<and> workers s' ! 0 = (''w1'', w')
      \<and> workers two_workers ! 0 = (''w1'', w'))"
proof -
  from two_workers_first obtain w where w: "workers two_workers ! 0 = (''w1'', w)"
    and st: "status w = ''waiting_ack''" and ts: "assignment_timestamp w = Some 3"
    and a: "assignment w = Some (Batch [''a.jpg''] ''in'' ''raw'' ''out'' ''processed'')"
    by (elim exE conjE)
  have i: "0 < length (workers two_workers)"
    by (simp add: eval_defs)
  have late: "status w = ''waiting_ack'' \<and> assignment_timestamp w = Some 3 \<and> (3::real) \<noteq> 0
      \<and> exact_sub 100 3 > real_of_int (ACK_TIMEOUT cfg0)"
    using st ts by (simp add: cfg0_def exact_sub_def)
  have edge: "status w = ''waiting_ack'' \<and> assignment_timestamp w = Some 3
      \<and> exact_sub 63 3 = real_of_int (ACK_TIMEOUT cfg0)"
    using st ts by (simp add: cfg0_def exact_sub_def)
  have 1: "\<exists>s' w'. timeout_pass exact_sub cfg0 100 two_workers = Inr s'
      \<and> workers s' ! 0 = (''w1'', w')
      \<and> status w' = ''unavailable'' \<and> assignment w' = None
      \<and> assignment_timestamp w' = None
      \<and> tasks s' = tasks two_workers
           @ concat (map (\<lambda>(k, w). reclaimed exact_sub cfg0 100 w) (take 0 (workers two_workers)))
           @ [''a.jpg'']
           @ concat (map (\<lambda>(k, w). reclaimed exact_sub cfg0 100 w)
               (drop (Suc 0) (workers two_workers)))"
    using timeout_pass_postcondition
      [OF two_workers_consistent i w, where fsub = exact_sub and cfg = cfg0 and now = 100]
  proof (elim exE conjE)
    fix s' w'
    assume p: "timeout_pass exact_sub cfg0 100 two_workers = Inr s'"
      "workers s' ! 0 = (''w1'', w')"
      "tasks s' = tasks two_workers
         @ concat (map (\<lambda>(k, w). reclaimed exact_sub cfg0 100 w) (take 0 (workers two_workers)))
         @ reclaimed exact_sub cfg0 100 w
         @ concat (map (\<lambda>(k, w). reclaimed exact_sub cfg0 100 w)
             (drop (Suc 0) (workers two_workers)))"
    assume "\<forall>ts. status w = ''waiting_ack'' \<and> assignment_timestamp w = Some ts \<and> ts \<noteq> 0
            \<and> exact_sub 100 ts > real_of_int (ACK_TIMEOUT cfg0) \<longrightarrow>
          (\<exists>a. assignment w = Some a \<and> reclaimed exact_sub cfg0 100 w = file_names a)
          \<and> assignment w' = None \<and> assignment_timestamp w' = None
          \<and> status w' = ''unavailable''
          \<and> history w' = history w @
              [\<lparr>ev_status = ''ack_timeout'', ev_details = Elapsed (exact_sub 100 ts),
                ev_timestamp = 100\<rparr>]
          \<and> processing_start w' = processing_start w \<and> details w' = details w"
    from this [rule_format, OF late] a
    have q: "reclaimed exact_sub cfg0 100 w = [''a.jpg'']"
      "assignment w' = None" "assignment_timestamp w' = None" "status w' = ''unavailable''"
      by simp_all
    from p q show ?thesis
      by (intro exI [of _ s'] exI [of _ w']) (simp del: take_0 drop_Suc_Cons)
  qed
  have 2: "\<exists>s' w'. timeout_pass exact_sub cfg0 63 two_workers = Inr s'
      \<and> workers s' ! 0 = (''w1'', w')
      \<and> workers two_workers ! 0 = (''w1'', w')"
    using timeout_pass_postcondition
      [OF two_workers_consistent i w, where fsub = exact_sub and cfg = cfg0 and now = 63]
  proof (elim exE conjE)
    fix s' w'
    assume p: "timeout_pass exact_sub cfg0 63 two_workers = Inr s'"
      "workers s' ! 0 = (''w1'', w')"
    assume "\<forall>ts. status w = ''waiting_ack'' \<and> assignment_timestamp w = Some ts
            \<and> exact_sub 63 ts = real_of_int (ACK_TIMEOUT cfg0) \<longrightarrow>
          w' = w \<and> reclaimed exact_sub cfg0 63 w = []"
    from this [rule_format, OF edge] have "w' = w" by simp
    with p w show ?thesis
      by (intro exI [of _ s'] exI [of _ w']) simp
  qed
  from 1 2 show ?thesis by (rule conjI)
qed

subsection \<open>Runs\<close>

lemma list_all_update:
  "P (k, v) \<Longrightarrow> list_all P al \<Longrightarrow> list_all P (AList.update k v al)"
  by (induction al) auto

lemma list_all_map_of:
  "list_all P al \<Longrightarrow> map_of al k = Some v \<Longrightarrow> P (k, v)"
  by (auto simp add: list_all_iff dest: map_of_SomeD)

lemma run_Nil: "run fsub cfg s [] = s"
  by (simp add: run_def)


lemma run_Cons: "run fsub cfg s (e # evs) = run fsub cfg (step fsub cfg s e) evs"
  by (simp add: run_def)

lemma run_append: "run fsub cfg s (evs @ evs') = run fsub cfg (run fsub cfg s evs) evs'"
  by (simp add: run_def)

subsection \<open>Leases stay consistent\<close>

text \<open>
  Every handler and every pass keeps the leases consistent, so they are consistent in
  every state that a run reaches from the start, and no pass ever raises there.
\<close>

lemma lease_ok_swept: "lease_ok w \<Longrightarrow> lease_ok (swept fsub cfg now w)"
  by (auto simp add: lease_ok_def swept_def ack_due_def processing_due_def
      split: option.splits)

lemma register_lease_consistent:
  "lease_consistent s \<Longrightarrow> lease_consistent (snd (register_worker k d t s))"
  by (simp add: lease_consistent_def register_worker_def list_all_update lease_ok_def)

lemma get_assignment_lease_consistent:
  assumes "lease_consistent s"
  shows "lease_consistent (snd (get_assignment cfg t1 t2 k s))"
proof (cases "map_of (workers s) k")
  case None
  with assms show ?thesis by (simp add: get_assignment_def)
next
  case (Some w)
  with assms have ok: "lease_ok w"
    using list_all_map_of [of "\<lambda>(k, w). lease_ok w" "workers s" k w]
    by (simp add: lease_consistent_def)
  show ?thesis
  proof (cases "assignment w")
    case a: (Some a)
    with Some assms show ?thesis by (simp add: get_assignment_def)
  next
    case None
    with ok have "assignment_timestamp w = None" "processing_start w = None"
      by (simp_all add: lease_ok_def)
    with Some None assms show ?thesis
      by (auto simp add: get_assignment_def lease_consistent_def lease_ok_def
          intro!: list_all_update)
  qed
qed

lemma acknowledge_lease_consistent:
  "lease_consistent s \<Longrightarrow> lease_consistent (snd (acknowledge_assignment t1 t2 k s))"
  by (auto simp add: acknowledge_assignment_def lease_consistent_def lease_ok_def
      intro!: list_all_update split: option.splits)

lemma update_status_lease_consistent:
  assumes "lease_consistent s"
  shows "lease_consistent (snd (update_status t k st d s))"
proof (cases "map_of (workers s) k")
  case None
  with assms show ?thesis by (simp add: update_status_def)
next
  case (Some w)
  with assms have ok: "lease_ok w"
    using list_all_map_of [of "\<lambda>(k, w). lease_ok w" "workers s" k w]
    by (simp add: lease_consistent_def)
  with Some assms show ?thesis
    by (auto simp add: update_status_def Let_def lease_consistent_def lease_ok_def
        intro!: list_all_update split: option.splits)
qed

lemma timeout_pass_lease_consistent:
  assumes "lease_consistent s"
  shows "\<exists>s'. timeout_pass fsub cfg now s = Inr s' \<and> lease_consistent s'"
  using assms
  by (auto simp add: timeout_pass_eq lease_consistent_def list_all_iff lease_ok_swept)

lemma step_lease_consistent:
  "lease_consistent s \<Longrightarrow> lease_consistent (step fsub cfg s e)"
proof (cases e)
  case (TimeoutPass now)
  assume "lease_consistent s"
  from timeout_pass_lease_consistent [OF this, of fsub cfg now] TimeoutPass
  show ?thesis by auto
qed (simp_all add: register_lease_consistent get_assignment_lease_consistent
      acknowledge_lease_consistent update_status_lease_consistent)

lemma run_lease_consistent:
  "lease_consistent s \<Longrightarrow> lease_consistent (run fsub cfg s evs)"
  by (induction evs arbitrary: s) (simp_all add: run_Nil run_Cons step_lease_consistent)

lemma init_lease_consistent: "lease_consistent (init discovered)"
  by (simp add: init_def lease_consistent_def)

subsection \<open>The branch for a pool found empty after the check\<close>














subsection \<open>The window of the processing timeout\<close>



lemma step_timeout_pass:
  assumes "lease_consistent s"
  shows "step fsub cfg s (TimeoutPass now) =
     s\<lparr>tasks := tasks s @ concat (map (\<lambda>(k, w). reclaimed fsub cfg now w) (workers s)),
       workers := map (\<lambda>(k, w). (k, swept fsub cfg now w)) (workers s)\<rparr>"
  by (simp add: timeout_pass_eq [OF assms])












subsection \<open>Conservation of tasks\<close>

lemma leased_update:
  "map_of ws k = Some w \<Longrightarrow>
   mset (concat (map (\<lambda>(k, w). held w) (AList.update k w' ws))) + mset (held w) =
   mset (concat (map (\<lambda>(k, w). held w) ws)) + mset (held w')"
  by (induction ws) (auto split: if_splits)

lemma leased_update_same:
  "map_of ws k = Some w \<Longrightarrow> held w' = held w \<Longrightarrow>
   mset (concat (map (\<lambda>(k, w). held w) (AList.update k w' ws))) =
   mset (concat (map (\<lambda>(k, w). held w) ws))"
  using leased_update [of ws k w w'] by simp

lemma leased_update_cleared:
  "map_of ws k = Some w \<Longrightarrow> held w' = [] \<Longrightarrow>
   mset (concat (map (\<lambda>(k, w). held w) (AList.update k w' ws))) + mset (held w) =
   mset (concat (map (\<lambda>(k, w). held w) ws))"
  using leased_update [of ws k w w'] by simp

lemma leased_update_taken:
  "map_of ws k = Some w \<Longrightarrow> held w = [] \<Longrightarrow>
   mset (concat (map (\<lambda>(k, w). held w) (AList.update k w' ws))) =
   mset (concat (map (\<lambda>(k, w). held w) ws)) + mset (held w')"
  using leased_update [of ws k w w'] by simp

lemma leased_update_fresh:
  "map_of ws k = None \<Longrightarrow>
   concat (map (\<lambda>(k, w). held w) (AList.update k w' ws)) =
   concat (map (\<lambda>(k, w). held w) ws) @ held w'"
  by (induction ws) (auto split: if_splits)

lemma slice_del_upto: "slice_upto n xs @ del_upto n xs = xs"
  by (simp add: slice_upto_def del_upto_def)

lemma held_swept:
  "mset (held (swept fsub cfg now w)) + mset (reclaimed fsub cfg now w) = mset (held w)"
  by (auto simp add: swept_def reclaimed_def held_def ack_due_def processing_due_def
      split: option.splits)

lemma leased_swept:
  "mset (concat (map (\<lambda>(k, w). held w) (map (\<lambda>(k, w). (k, swept fsub cfg now w)) ws)))
   + mset (concat (map (\<lambda>(k, w). reclaimed fsub cfg now w) ws)) =
   mset (concat (map (\<lambda>(k, w). held w) ws))"
proof (induction ws)
  case Nil
  show ?case by simp
next
  case (Cons p ws)
  obtain k w where p: "p = (k, w)" by (cases p)
  from Cons held_swept [of fsub cfg now w] p show ?case
    by (simp add: add.assoc add.left_commute add.commute)
qed

lemma held_same: "assignment w' = assignment w \<Longrightarrow> held w' = held w"
  by (simp add: held_def)

lemma held_None: "assignment w = None \<Longrightarrow> held w = []"
  by (simp add: held_def)

lemma held_Some: "assignment w = Some a \<Longrightarrow> held w = file_names a"
  by (simp add: held_def)

lemma register_conserves:
  assumes "map_of (workers s) k = None"
  shows "mset (tasks (step fsub cfg s (Register k d t)))
       + mset (leased (step fsub cfg s (Register k d t))) =
     mset (tasks s) + mset (leased s)"
  by (simp add: register_worker_def leased_def leased_update_fresh [OF assms] held_None)

lemma get_assignment_conserves:
  "mset (tasks (step fsub cfg s (GetAssignment k t1 t2)))
       + mset (leased (step fsub cfg s (GetAssignment k t1 t2))) =
     mset (tasks s) + mset (leased s)"
proof (cases "map_of (workers s) k")
  case None
  then show ?thesis by (simp add: get_assignment_def)
next
  case (Some w)
  note w = Some
  show ?thesis
  proof (cases "assignment w")
    case (Some a)
    with w show ?thesis
      by (simp add: get_assignment_def)
  next
    case None
    then have h: "held w = []" by (rule held_None)
    note upd = leased_update_taken [OF w h]
    show ?thesis
    proof (cases "tasks s = []")
      case True
      with None w show ?thesis
        by (simp add: get_assignment_def all_tasks_completed_def leased_def upd held_Some)
    next
      case False
      have "mset (del_upto (BATCH_SIZE cfg) (tasks s))
          + mset (slice_upto (BATCH_SIZE cfg) (tasks s)) = mset (tasks s)"
        using slice_del_upto [of "BATCH_SIZE cfg" "tasks s"]
        by (metis add.commute mset_append)
      with False None w show ?thesis
        by (simp add: get_assignment_def all_tasks_completed_def leased_def upd held_Some
            add.assoc)
    qed
  qed
qed

lemma acknowledge_conserves:
  "mset (tasks (step fsub cfg s (Acknowledge k t1 t2)))
       + mset (leased (step fsub cfg s (Acknowledge k t1 t2))) =
     mset (tasks s) + mset (leased s)"
proof (cases "map_of (workers s) k")
  case None
  then show ?thesis by (simp add: acknowledge_assignment_def)
next
  case (Some w)
  note w = Some
  show ?thesis
  proof (cases "assignment w")
    case None
    with w show ?thesis by (simp add: acknowledge_assignment_def)
  next
    case (Some a)
    let ?w' = "w\<lparr>status := ''processing'', processing_start := Some t1,
        history := history w @
          [\<lparr>ev_status = ''processing'', ev_details = EmptyDetails, ev_timestamp = t2\<rparr>],
        assignment_timestamp := None\<rparr>"
    have "held ?w' = held w" by (rule held_same) simp
    from leased_update_same [OF w this] w Some show ?thesis
      by (simp add: acknowledge_assignment_def leased_def)
  qed
qed

lemma update_status_conserves:
  assumes "conserving s (UpdateStatus k st d t)"
  shows "mset (tasks (step fsub cfg s (UpdateStatus k st d t)))
       + mset (leased (step fsub cfg s (UpdateStatus k st d t)))
       + mset (completed_by s (UpdateStatus k st d t)) =
     mset (tasks s) + mset (leased s)"
proof (cases "map_of (workers s) k")
  case None
  then show ?thesis by (simp add: update_status_def)
next
  case (Some w)
  note w = Some
  show ?thesis
  proof (cases "assignment w")
    case None
    then have h: "held w = []" by (rule held_None)
    have same: "mset (concat (map (\<lambda>(k, w). held w) (AList.update k w' (workers s)))) =
        mset (concat (map (\<lambda>(k, w). held w) (workers s)))"
      if "assignment w' = None" for w'
      using leased_update_same [OF w, of w'] h held_None [OF that] by simp
    from w None h show ?thesis
      by (simp add: update_status_def Let_def leased_def same)
  next
    case (Some a)
    then have h: "held w = file_names a" by (rule held_Some)
    have same: "mset (concat (map (\<lambda>(k, w). held w) (AList.update k w' (workers s)))) =
        mset (concat (map (\<lambda>(k, w). held w) (workers s)))"
      if "assignment w' = assignment w" for w'
      using leased_update_same [OF w, of w'] held_same [OF that] by simp
    have cleared: "mset (concat (map (\<lambda>(k, w). held w) (AList.update k w' (workers s))))
          + mset (file_names a) =
        mset (concat (map (\<lambda>(k, w). held w) (workers s)))"
      if "assignment w' = None" for w'
      using leased_update_cleared [OF w, of w'] held_None [OF that] h by simp
    consider (c) "lower st = ''completed''" | (f) "lower st = ''failed''"
      | (p) "lower st = ''processing''" | (sd) "lower st = ''shutting-down''"
      | (o) "lower st \<noteq> ''completed''" "lower st \<noteq> ''failed''"
          "lower st \<noteq> ''processing''" "lower st \<noteq> ''shutting-down''"
      by blast
    then show ?thesis
    proof cases
      case c
      let ?w' = "w\<lparr>history := history w @
          [\<lparr>ev_status = ''completed'', ev_details = d, ev_timestamp = t\<rparr>],
          assignment := None, assignment_timestamp := None, processing_start := None,
          status := ''idle''\<rparr>"
      have stp: "step fsub cfg s (UpdateStatus k st d t) =
          s\<lparr>workers := AList.update k ?w' (workers s)\<rparr>"
        using w Some c by (simp add: update_status_def Let_def)
      have cb: "completed_by s (UpdateStatus k st d t) = file_names a"
        using w c h by simp
      have "assignment ?w' = None" by simp
      from cleared [OF this] show ?thesis
        unfolding stp cb leased_def by (simp add: add.assoc)
    next
      case f
      let ?w' = "w\<lparr>history := history w @
          [\<lparr>ev_status = ''failed'', ev_details = d, ev_timestamp = t\<rparr>],
          assignment := None, assignment_timestamp := None, processing_start := None,
          status := ''failed''\<rparr>"
      have stp: "step fsub cfg s (UpdateStatus k st d t) =
          s\<lparr>tasks := tasks s @ file_names a, workers := AList.update k ?w' (workers s)\<rparr>"
        using w Some f by (simp add: update_status_def Let_def)
      have cb: "completed_by s (UpdateStatus k st d t) = []"
        using w f by simp
      have n: "assignment ?w' = None" by simp
      have "mset (tasks s @ file_names a)
            + mset (concat (map (\<lambda>(k, w). held w) (AList.update k ?w' (workers s)))) =
          mset (tasks s)
            + (mset (concat (map (\<lambda>(k, w). held w) (AList.update k ?w' (workers s))))
               + mset (file_names a))"
        by (simp add: add.assoc add.commute)
      also have "\<dots> = mset (tasks s) + mset (concat (map (\<lambda>(k, w). held w) (workers s)))"
        by (simp only: cleared [OF n])
      finally show ?thesis
        unfolding stp cb leased_def by simp
    next
      case p
      let ?w' = "w\<lparr>history := history w @
          [\<lparr>ev_status = ''processing'', ev_details = d, ev_timestamp = t\<rparr>],
          status := ''processing''\<rparr>"
      have stp: "step fsub cfg s (UpdateStatus k st d t) =
          s\<lparr>workers := AList.update k ?w' (workers s)\<rparr>"
        using w Some p by (simp add: update_status_def Let_def)
      have cb: "completed_by s (UpdateStatus k st d t) = []"
        using w p by simp
      have "assignment ?w' = assignment w" by simp
      from same [OF this] show ?thesis
        unfolding stp cb leased_def by simp
    next
      case sd
      with assms w have e: "held w = []" by simp
      let ?w' = "w\<lparr>history := history w @
          [\<lparr>ev_status = ''shutting-down'', ev_details = d, ev_timestamp = t\<rparr>],
          assignment := None, assignment_timestamp := None, processing_start := None,
          status := ''shutting-down''\<rparr>"
      have stp: "step fsub cfg s (UpdateStatus k st d t) =
          s\<lparr>workers := AList.update k ?w' (workers s)\<rparr>"
        using w Some sd by (simp add: update_status_def Let_def)
      have cb: "completed_by s (UpdateStatus k st d t) = []"
        using w sd by simp
      have "assignment ?w' = None" by simp
      from cleared [OF this] e h show ?thesis
        unfolding stp cb leased_def by simp
    next
      case o
      let ?w' = "w\<lparr>history := history w @
          [\<lparr>ev_status = lower st, ev_details = d, ev_timestamp = t\<rparr>],
          status := lower st\<rparr>"
      have stp: "step fsub cfg s (UpdateStatus k st d t) =
          s\<lparr>workers := AList.update k ?w' (workers s)\<rparr>"
        using w Some o by (simp add: update_status_def Let_def)
      have cb: "completed_by s (UpdateStatus k st d t) = []"
        using w o by simp
      have "assignment ?w' = assignment w" by simp
      from same [OF this] show ?thesis
        unfolding stp cb leased_def by simp
    qed
  qed
qed

lemma timeout_pass_conserves:
  assumes "lease_consistent s"
  shows "mset (tasks (step fsub cfg s (TimeoutPass now)))
       + mset (leased (step fsub cfg s (TimeoutPass now))) =
     mset (tasks s) + mset (leased s)"
  using leased_swept [of fsub cfg now "workers s"]
  by (simp add: step_timeout_pass [OF assms] leased_def add.assoc add.commute
      add.left_commute del: step.simps)

lemma step_conserves:
  assumes "lease_consistent s" and "conserving s e"
  shows "mset (tasks (step fsub cfg s e)) + mset (leased (step fsub cfg s e))
       + mset (completed_by s e) =
     mset (tasks s) + mset (leased s)"
proof (cases e)
  case (Register k d t)
  with assms(2) register_conserves [of s k fsub cfg d t] show ?thesis by simp
next
  case (GetAssignment k t1 t2)
  with get_assignment_conserves [of fsub cfg s k t1 t2] show ?thesis by simp
next
  case (Acknowledge k t1 t2)
  with acknowledge_conserves [of fsub cfg s k t1 t2] show ?thesis by simp
next
  case (UpdateStatus k st d t)
  with assms(2) update_status_conserves [of s k st d t fsub cfg] show ?thesis by simp
next
  case (TimeoutPass now)
  with timeout_pass_conserves [OF assms(1), of fsub cfg now] show ?thesis by simp
qed

lemma run_conserves:
  "lease_consistent s \<Longrightarrow> conserving_run fsub cfg s evs \<Longrightarrow>
   mset (tasks (run fsub cfg s evs)) + mset (leased (run fsub cfg s evs))
     + mset (completed fsub cfg s evs) =
   mset (tasks s) + mset (leased s)"
proof (induction evs arbitrary: s)
  case Nil
  show ?case by (simp add: run_Nil)
next
  case (Cons e evs)
  from Cons.prems have c: "conserving s e"
    and cr: "conserving_run fsub cfg (step fsub cfg s e) evs"
    by simp_all
  from Cons.prems(1) have lc: "lease_consistent (step fsub cfg s e)"
    by (rule step_lease_consistent)
  from Cons.IH [OF lc cr] step_conserves [OF Cons.prems(1) c, of fsub cfg]
  show ?case
    by (simp add: run_Cons add.assoc add.commute add.left_commute del: step.simps)
qed

text \<open>
  Along a conserving run from the initial state the pool, the files held by the workers
  and the files of the batches reported completed are together the discovered tasks.
\<close>

lemma conservation_without_shutdown_reports:
  assumes "conserving_run fsub cfg (init discovered) evs"
  shows "mset (tasks (run fsub cfg (init discovered) evs))
       + mset (leased (run fsub cfg (init discovered) evs))
       + mset (completed fsub cfg (init discovered) evs) =
     mset discovered"
  using run_conserves [OF init_lease_consistent assms]
  by (simp add: init_def leased_def)

text \<open>
  C1. Task conservation: in every reachable state the pool, the files held by the workers
  and the files reported completed are together the discovered tasks. The scheduler does
  not keep this: a \<open>shutting-down\<close> report of a worker that holds a batch clears the
  assignment without returning its files, where the \<open>failed\<close> report and both timeouts
  return them. After the run \<open>signalled\<close> from the one discovered task \<open>a.jpg\<close> the
  pool is empty, no worker holds a file and nothing was reported completed, so the three
  together are not the discovered tasks.
\<close>

theorem shutting_down_report_loses_batch:
  "tasks (run exact_sub cfg0 (init [''a.jpg'']) signalled) = []
   \<and> leased (run exact_sub cfg0 (init [''a.jpg'']) signalled) = []
   \<and> completed exact_sub cfg0 (init [''a.jpg'']) signalled = []
   \<and> mset (tasks (run exact_sub cfg0 (init [''a.jpg'']) signalled))
       + mset (leased (run exact_sub cfg0 (init [''a.jpg'']) signalled))
       + mset (completed exact_sub cfg0 (init [''a.jpg'']) signalled)
     \<noteq> mset (tasks (init [''a.jpg'']))"
  by (simp add: signalled_def eval_defs acknowledge_assignment_def update_status_def
      lower_shutting_down leased_def held_def)

end
